theory Spec2Isabelle
  imports Main "HOL-Library.Word" "HOL-Library.Signed_Division"
begin

unbundle bit_operations_syntax

section \<open>The fluent validator: results, rules and chains\<close>

text \<open>
  \<^verbatim>\<open>type ValidationResult struct { IsValid bool; Message []string }\<close>.
  A Go slice of strings is modelled by its contents: the nil slice and the empty slice both
  have length 0 and are both the list \<open>[]\<close>.
\<close>

record ValidationResult =
  IsValid :: bool
  Message :: "string list"

text \<open>
  \<^verbatim>\<open>type Validator interface { Validate() ValidationResult }\<close> and its adapter
  \<^verbatim>\<open>type ValidatorFunc func() ValidationResult\<close>. A rule takes no argument, but it is a
  closure: it may read and change whatever it closes over (a call counter, the clock).
  That environment is the state \<open>'s\<close>, passed in and returned, so that an invocation of
  a rule is visible in the state it leaves behind. The model covers rules that are not nil
  and that return.
\<close>

type_synonym 's Validator = "'s \<Rightarrow> ValidationResult \<times> 's"

definition Success :: ValidationResult where
  "Success = \<lparr>IsValid = True, Message = []\<rparr>"

definition Fail :: "string list \<Rightarrow> ValidationResult" where
  "Fail msg = \<lparr>IsValid = False, Message = msg\<rparr>"

datatype logicalOp = opAnd | opOr

record 's chainedStep =
  validator :: "'s Validator"
  op :: logicalOp

record 's FluentValidator =
  steps :: "'s chainedStep list"

definition New :: "'s FluentValidator" where
  "New = \<lparr>steps = []\<rparr>"

text \<open>
  \<open>And\<close> and \<open>Or\<close> append to \<open>f.steps\<close> and return the builder; the model returns
  the updated builder.
\<close>

definition And :: "'s FluentValidator \<Rightarrow> 's Validator \<Rightarrow> 's FluentValidator" where
  "And f v = f\<lparr>steps := steps f @ [\<lparr>validator = v, op = opAnd\<rparr>]\<rparr>"

definition Or :: "'s FluentValidator \<Rightarrow> 's Validator \<Rightarrow> 's FluentValidator" where
  "Or f v = f\<lparr>steps := steps f @ [\<lparr>validator = v, op = opOr\<rparr>]\<rparr>"

subsection \<open>Validate\<close>

text \<open>
  One iteration of \<^verbatim>\<open>for i, step := range f.steps\<close>, on the loop's variables
  \<open>accValid\<close> and \<open>messages\<close> and on the rules' state. Each \<^verbatim>\<open>continue\<close> of the
  source is a branch that returns the variables unchanged.
\<close>

definition Validate_body ::
  "nat \<Rightarrow> 's chainedStep \<Rightarrow> bool \<times> string list \<times> 's \<Rightarrow> bool \<times> string list \<times> 's" where
  "Validate_body i step st =
     (case st of (accValid, messages, s) \<Rightarrow>
        if i = 0 then
          (case validator step s of (res, s') \<Rightarrow>
             (IsValid res,
              (if \<not> IsValid res \<and> length (Message res) > 0
               then messages @ Message res else messages),
              s'))
        else
          (case op step of
             opAnd \<Rightarrow>
               if \<not> accValid then (accValid, messages, s)
               else
                 (case validator step s of (res, s') \<Rightarrow>
                    (accValid \<and> IsValid res,
                     (if \<not> IsValid res \<and> length (Message res) > 0
                      then messages @ Message res else messages),
                     s'))
           | opOr \<Rightarrow>
               if accValid then (accValid, messages, s)
               else
                 (case validator step s of (res, s') \<Rightarrow>
                    (accValid \<or> IsValid res,
                     (if IsValid res then []
                      else if length (Message res) > 0
                      then messages @ Message res else messages),
                     s'))))"

text \<open>The loop over the steps, from index \<open>i\<close> on.\<close>

fun Validate_loop ::
  "nat \<Rightarrow> 's chainedStep list \<Rightarrow> bool \<times> string list \<times> 's \<Rightarrow> bool \<times> string list \<times> 's" where
  "Validate_loop i [] st = st"
| "Validate_loop i (step # rest) st = Validate_loop (Suc i) rest (Validate_body i step st)"

text \<open>
  \<open>Validate\<close> reads \<open>f.steps\<close> and never assigns to it, so the chain is an argument
  only; the result comes with the state the invoked rules left.
\<close>

definition Validate :: "'s FluentValidator \<Rightarrow> 's \<Rightarrow> ValidationResult \<times> 's" where
  "Validate f s =
     (if length (steps f) = 0 then (Success, s)
      else
        (case Validate_loop 0 (steps f) (False, [], s) of (accValid, messages, s') \<Rightarrow>
           if accValid then (Success, s')
           else (\<lparr>IsValid = False, Message = messages\<rparr>, s')))"

subsection \<open>Rules used in the examples\<close>

text \<open>
  \<^verbatim>\<open>func() ValidationResult { return r }\<close>: a rule that returns \<open>r\<close> and touches
  nothing.
\<close>

definition const_rule :: "ValidationResult \<Rightarrow> 's Validator" where
  "const_rule r = (\<lambda>s. (r, s))"

text \<open>
  A call-counter wrapper: the state is the log of invocations, and the rule appends its
  tag \<open>k\<close> to the log each time it is invoked, then returns \<open>r\<close>.
\<close>

definition logged_rule :: "nat \<Rightarrow> ValidationResult \<Rightarrow> (nat list) Validator" where
  "logged_rule k r = (\<lambda>log. (r, log @ [k]))"

text \<open>Invoking the rule of every step in order, whatever the operators.\<close>

fun invoke_all :: "'s chainedStep list \<Rightarrow> 's \<Rightarrow> ValidationResult list \<times> 's" where
  "invoke_all [] s = ([], s)"
| "invoke_all (step # rest) s =
     (case validator step s of (res, s') \<Rightarrow>
        (case invoke_all rest s' of (rs, s'') \<Rightarrow> (res # rs, s'')))"

text \<open>
  A recording wrapper: the rule behaves as \<open>v\<close> on its own state and appends the result
  of each of its invocations to a log kept beside that state. \<open>recorded\<close> wraps the rule of
  every step of a chain, and \<open>failing_messages\<close> lists the messages of the logged results
  that have \<open>IsValid\<close> false.
\<close>

definition recording :: "'s Validator \<Rightarrow> ('s \<times> ValidationResult list) Validator" where
  "recording v = (\<lambda>(s, log). case v s of (res, s') \<Rightarrow> (res, (s', log @ [res])))"

definition recorded ::
  "'s chainedStep list \<Rightarrow> ('s \<times> ValidationResult list) chainedStep list" where
  "recorded xs = map (\<lambda>st. \<lparr>validator = recording (validator st), op = op st\<rparr>) xs"

definition failing_messages :: "ValidationResult list \<Rightarrow> string list" where
  "failing_messages rs = concat (map Message (filter (\<lambda>r. \<not> IsValid r) rs))"

section \<open>Numeric rules\<close>

text \<open>
  \<^verbatim>\<open>strconv.Itoa\<close>: the decimal digits of an integer, with a leading minus sign for a
  negative one.
\<close>

definition digit_char :: "nat \<Rightarrow> char" where
  "digit_char d = char_of (48 + d)"

function nat_digits :: "nat \<Rightarrow> string" where
  "nat_digits n =
     (if n < 10 then [digit_char n] else nat_digits (n div 10) @ [digit_char (n mod 10)])"
  by pat_completeness auto
termination
  by (relation "measure id") auto

definition Itoa :: "int \<Rightarrow> string" where
  "Itoa i = (if i < 0 then CHR ''-'' # nat_digits (nat (- i)) else nat_digits (nat i))"

text \<open>
  Go's \<open>int\<close> is a 64-bit two's complement integer on the usual platforms. \<^verbatim>\<open>v % m\<close>
  panics with a division by zero when \<open>m\<close> is 0, and is the remainder of the division
  truncated towards zero otherwise.
\<close>

type_synonym go_int = "64 word"

datatype panic = DivideByZero

definition go_rem :: "go_int \<Rightarrow> go_int \<Rightarrow> panic + go_int" where
  "go_rem v m = (if m = 0 then Inl DivideByZero else Inr (word_of_int (sint v smod sint m)))"

text \<open>
  \<^verbatim>\<open>if m == 0 || v%m != 0 { return Fail(...) }; return Success()\<close>: the result of
  the rule \<open>IntMultipleOf(v, m)\<close> when it is invoked. The right operand of \<^verbatim>\<open>||\<close> is
  evaluated only when the left one is false.
\<close>

definition IntMultipleOf :: "go_int \<Rightarrow> go_int \<Rightarrow> panic + ValidationResult" where
  "IntMultipleOf v m =
     (case (if m = 0 then Inr True
            else (case go_rem v m of Inl p \<Rightarrow> Inl p | Inr r \<Rightarrow> Inr (r \<noteq> 0))) of
        Inl p \<Rightarrow> Inl p
      | Inr c \<Rightarrow>
          if c then Inr (Fail [''must be a multiple of '' @ Itoa (sint m)])
          else Inr Success)"

text \<open>
  A \<open>float64\<close> is its IEEE 754 bit pattern. \<^verbatim>\<open>m == 0\<close> holds for the two zeros,
  \<open>+0\<close> and \<open>-0\<close>: every bit but the sign is clear. The arithmetic of the rest of
  \<open>FloatMultipleOf\<close> (division, the conversions to and from \<open>int64\<close>, multiplication,
  subtraction, negation, the comparisons and the formatting of \<open>trimFloatZeros\<close>) belongs
  to the Go runtime; it is a parameter of the model.
\<close>

type_synonym float64 = "64 word"

definition float64_is_zero :: "float64 \<Rightarrow> bool" where
  "float64_is_zero m = (m AND 0x7FFFFFFFFFFFFFFF = 0)"

record float64_ops =
  fdiv :: "float64 \<Rightarrow> float64 \<Rightarrow> float64"
  fmul :: "float64 \<Rightarrow> float64 \<Rightarrow> float64"
  fsub :: "float64 \<Rightarrow> float64 \<Rightarrow> float64"
  fneg :: "float64 \<Rightarrow> float64"
  flt :: "float64 \<Rightarrow> float64 \<Rightarrow> bool"
  to_int64 :: "float64 \<Rightarrow> 64 word"
  of_int64 :: "64 word \<Rightarrow> float64"
  fconst_0 :: float64
  fconst_1e_9 :: float64
  trimFloatZeros :: "float64 \<Rightarrow> string"

definition FloatMultipleOf :: "float64_ops \<Rightarrow> float64 \<Rightarrow> float64 \<Rightarrow> ValidationResult" where
  "FloatMultipleOf F v m =
     (if float64_is_zero m then Fail [''must be a multiple of 0 is undefined'']
      else
        let q = fdiv F v m;
            qi = of_int64 F (to_int64 F q);
            r = fsub F v (fmul F qi m);
            r = (if flt F r (fconst_0 F) then fneg F r else r)
        in if flt F (fconst_1e_9 F) r
           then Fail [''must be a multiple of '' @ trimFloatZeros F m]
           else Success)"

section \<open>Properties of the loop\<close>

lemmas example_defs = Validate_def Validate_body_def And_def Or_def New_def const_rule_def
  logged_rule_def Success_def Fail_def

lemma Validate_loop_append:
  "Validate_loop i (xs @ ys) st = Validate_loop (i + length xs) ys (Validate_loop i xs st)"
  by (induction xs arbitrary: i st) simp_all

lemma Validate_loop_snoc:
  "Validate_loop i (xs @ [x]) st = Validate_body (i + length xs) x (Validate_loop i xs st)"
  by (simp add: Validate_loop_append)

text \<open>The five ways through one iteration.\<close>

lemma body_first:
  "Validate_body 0 step (acc, msgs, s) =
     (case validator step s of (res, s') \<Rightarrow>
        (IsValid res, (if IsValid res then msgs else msgs @ Message res), s'))"
  by (simp add: Validate_body_def split: prod.splits)

lemma body_and_failing:
  "0 < i \<Longrightarrow> op step = opAnd \<Longrightarrow> Validate_body i step (False, msgs, s) = (False, msgs, s)"
  by (simp add: Validate_body_def)

lemma body_or_passing:
  "0 < i \<Longrightarrow> op step = opOr \<Longrightarrow> Validate_body i step (True, msgs, s) = (True, msgs, s)"
  by (simp add: Validate_body_def)

lemma body_and_passing:
  "0 < i \<Longrightarrow> op step = opAnd \<Longrightarrow>
   Validate_body i step (True, msgs, s) =
     (case validator step s of (res, s') \<Rightarrow>
        (IsValid res, (if IsValid res then msgs else msgs @ Message res), s'))"
  by (simp add: Validate_body_def split: prod.splits)

lemma body_or_failing:
  "0 < i \<Longrightarrow> op step = opOr \<Longrightarrow>
   Validate_body i step (False, msgs, s) =
     (case validator step s of (res, s') \<Rightarrow>
        (IsValid res, (if IsValid res then [] else msgs @ Message res), s'))"
  by (simp add: Validate_body_def split: prod.splits)

section \<open>An OR step that passes clears the messages\<close>

text \<open>
  Claim C1. Take any chain \<open>pre\<close> after which the accumulator is false, with whatever
  messages \<open>msgs\<close> its AND and OR steps have accumulated, and append an OR step whose
  rule passes in the state reached. After that step the accumulator is true and the
  accumulated message list is empty, and \<open>Validate\<close> on the extended chain returns the
  passing result with no messages. In particular the chain AND(pass()), AND(fail("x")),
  OR(pass()) evaluates to a valid result with no messages.
\<close>

theorem C1_or_success_clears_messages:
  "(Validate_loop 0 pre (False, [], s0) = (False, msgs, s1) \<and> op st = opOr
      \<and> validator st s1 = (res, s2) \<and> IsValid res
    \<longrightarrow> Validate_loop 0 (pre @ [st]) (False, [], s0) = (True, [], s2)
        \<and> Validate \<lparr>steps = pre @ [st]\<rparr> s0 = (\<lparr>IsValid = True, Message = []\<rparr>, s2))
   \<and> Validate (Or (And (And New (const_rule Success)) (const_rule (Fail [''x''])))
                 (const_rule Success)) s
       = (\<lparr>IsValid = True, Message = []\<rparr>, s)"
proof (intro conjI impI)
  assume h: "Validate_loop 0 pre (False, [], s0) = (False, msgs, s1) \<and> op st = opOr
      \<and> validator st s1 = (res, s2) \<and> IsValid res"
  show l: "Validate_loop 0 (pre @ [st]) (False, [], s0) = (True, [], s2)"
  proof (cases "pre = []")
    case True
    with h show ?thesis by (simp add: body_first)
  next
    case False
    then have "0 < length pre" by simp
    with h show ?thesis by (simp add: Validate_loop_snoc body_or_failing)
  qed
  show "Validate \<lparr>steps = pre @ [st]\<rparr> s0 = (\<lparr>IsValid = True, Message = []\<rparr>, s2)"
    using l by (simp add: Validate_def Success_def)
next
  show "Validate (Or (And (And New (const_rule Success)) (const_rule (Fail [''x''])))
                 (const_rule Success)) s
       = (\<lparr>IsValid = True, Message = []\<rparr>, s)"
    by (simp add: example_defs)
qed

theorem C1_or_success_clears_messages_witness:
  "Validate_loop 0 [\<lparr>validator = const_rule Success, op = opAnd\<rparr>,
                    \<lparr>validator = const_rule (Fail [''x'']), op = opAnd\<rparr>] (False, [], ())
     = (False, [''x''], ())
   \<and> Validate_loop 0 ([\<lparr>validator = const_rule Success, op = opAnd\<rparr>,
                        \<lparr>validator = const_rule (Fail [''x'']), op = opAnd\<rparr>]
                       @ [\<lparr>validator = const_rule Success, op = opOr\<rparr>]) (False, [], ())
     = (True, [], ())"
  using C1_or_success_clears_messages
    [of "[\<lparr>validator = const_rule Success, op = opAnd\<rparr>,
          \<lparr>validator = const_rule (Fail [''x'']), op = opAnd\<rparr>]"
        "()" "[''x'']" "()" "\<lparr>validator = const_rule Success, op = opOr\<rparr>" Success "()" "()"]
  by (simp add: example_defs)

section \<open>AND steps are skipped once the accumulator is false\<close>

lemma loop_and_run_failing:
  "\<forall>st \<in> set ands. op st = opAnd \<Longrightarrow> 0 < i \<Longrightarrow>
   Validate_loop i ands (False, msgs, s) = (False, msgs, s)"
  by (induction ands arbitrary: i) (simp_all add: body_and_failing)

text \<open>
  Claim C2. Take any non-empty chain \<open>pre\<close> after which the accumulator is false, with
  messages \<open>msgs\<close> and the rules' state \<open>s1\<close>, and append any run of AND steps, with any
  rules at all. The loop ends with the same accumulator, the same messages and the same
  state \<open>s1\<close>: the appended rules add no message and, since a rule that changed the state
  would leave a different one, none of them is invoked. In particular, with rules that
  log their invocation, AND(fail("e1")), AND(fail("e2")), AND(fail("e3")) evaluates to the
  failing result with the one message "e1", and the log holds the first rule only.
\<close>

theorem C2_and_short_circuit:
  "((\<forall>st \<in> set ands. op st = opAnd) \<and> pre \<noteq> []
      \<and> Validate_loop 0 pre (False, [], s0) = (False, msgs, s1)
    \<longrightarrow> Validate_loop 0 (pre @ ands) (False, [], s0) = (False, msgs, s1)
        \<and> Validate \<lparr>steps = pre @ ands\<rparr> s0 = (\<lparr>IsValid = False, Message = msgs\<rparr>, s1))
   \<and> Validate (And (And (And New (logged_rule 1 (Fail [''e1''])))
                           (logged_rule 2 (Fail [''e2''])))
                      (logged_rule 3 (Fail [''e3'']))) []
       = (\<lparr>IsValid = False, Message = [''e1'']\<rparr>, [1])"
proof (intro conjI impI)
  assume h: "(\<forall>st \<in> set ands. op st = opAnd) \<and> pre \<noteq> []
      \<and> Validate_loop 0 pre (False, [], s0) = (False, msgs, s1)"
  then have "0 < length pre" by simp
  with h show l: "Validate_loop 0 (pre @ ands) (False, [], s0) = (False, msgs, s1)"
    by (simp add: Validate_loop_append loop_and_run_failing)
  from h show "Validate \<lparr>steps = pre @ ands\<rparr> s0 = (\<lparr>IsValid = False, Message = msgs\<rparr>, s1)"
    using l by (simp add: Validate_def)
next
  show "Validate (And (And (And New (logged_rule 1 (Fail [''e1''])))
                           (logged_rule 2 (Fail [''e2''])))
                      (logged_rule 3 (Fail [''e3'']))) []
       = (\<lparr>IsValid = False, Message = [''e1'']\<rparr>, [1])"
    by (simp add: example_defs)
qed

theorem C2_and_short_circuit_witness:
  "op \<lparr>validator = logged_rule 2 (Fail [''e2'']), op = opAnd\<rparr> = opAnd
   \<and> op \<lparr>validator = logged_rule 3 (Fail [''e3'']), op = opAnd\<rparr> = opAnd
   \<and> [\<lparr>validator = logged_rule 1 (Fail [''e1'']), op = opAnd\<rparr>] \<noteq> []
   \<and> Validate_loop 0 [\<lparr>validator = logged_rule 1 (Fail [''e1'']), op = opAnd\<rparr>] (False, [], [])
       = (False, [''e1''], [1])
   \<and> Validate \<lparr>steps = [\<lparr>validator = logged_rule 1 (Fail [''e1'']), op = opAnd\<rparr>]
                        @ [\<lparr>validator = logged_rule 2 (Fail [''e2'']), op = opAnd\<rparr>,
                           \<lparr>validator = logged_rule 3 (Fail [''e3'']), op = opAnd\<rparr>]\<rparr> []
       = (\<lparr>IsValid = False, Message = [''e1'']\<rparr>, [1])"
  using C2_and_short_circuit
    [of "[\<lparr>validator = logged_rule 2 (Fail [''e2'']), op = opAnd\<rparr>,
          \<lparr>validator = logged_rule 3 (Fail [''e3'']), op = opAnd\<rparr>]"
        "[\<lparr>validator = logged_rule 1 (Fail [''e1'']), op = opAnd\<rparr>]"
        "[]" "[''e1'']" "[1]"]
  by (simp add: logged_rule_def Fail_def Validate_body_def)

section \<open>OR steps that all fail\<close>

lemma loop_or_all_fail:
  "\<forall>st \<in> set xs. op st = opOr \<Longrightarrow>
   \<forall>r \<in> set (fst (invoke_all xs s)). \<not> IsValid r \<Longrightarrow>
   Validate_loop i xs (False, msgs, s) =
     (False, msgs @ concat (map Message (fst (invoke_all xs s))), snd (invoke_all xs s))"
proof (induction xs arbitrary: i msgs s)
  case Nil
  then show ?case by simp
next
  case (Cons x xs)
  obtain res s' where v: "validator x s = (res, s')" by (cases "validator x s")
  obtain rs s'' where r: "invoke_all xs s' = (rs, s'')" by (cases "invoke_all xs s'")
  from Cons.prems v r have nv: "\<not> IsValid res"
    and rest: "\<forall>r \<in> set (fst (invoke_all xs s')). \<not> IsValid r"
    by simp_all
  from Cons.prems have ox: "op x = opOr" and oxs: "\<forall>st \<in> set xs. op st = opOr" by simp_all
  have b: "Validate_body i x (False, msgs, s) = (False, msgs @ Message res, s')"
    using v nv ox by (cases "i = 0") (simp_all add: body_first body_or_failing)
  show ?case
    using Cons.IH [OF oxs rest, of "Suc i" "msgs @ Message res"] b v r by simp
qed

text \<open>
  Claim C3. Take any chain whose steps are all OR steps and whose rules, invoked one after
  the other from the state \<open>s\<close>, all fail. \<open>Validate\<close> leaves the state that invoking every
  rule in order leaves, so every rule is invoked, and its messages are the messages of all
  the results, in that order; the result is invalid unless the chain is empty. In
  particular OR(fail("a")), OR(fail("b")) evaluates to the failing result with the messages
  "a", "b", both rules logged.
\<close>

theorem C3_or_collects_all_failures:
  "((\<forall>st \<in> set (steps f). op st = opOr)
      \<and> (\<forall>r \<in> set (fst (invoke_all (steps f) s)). \<not> IsValid r)
    \<longrightarrow> Validate f s =
          (\<lparr>IsValid = (steps f = []),
            Message = concat (map Message (fst (invoke_all (steps f) s)))\<rparr>,
           snd (invoke_all (steps f) s)))
   \<and> Validate (Or (Or New (logged_rule 1 (Fail [''a'']))) (logged_rule 2 (Fail [''b'']))) []
       = (\<lparr>IsValid = False, Message = [''a'', ''b'']\<rparr>, [1, 2])"
proof (intro conjI impI)
  assume h: "(\<forall>st \<in> set (steps f). op st = opOr)
      \<and> (\<forall>r \<in> set (fst (invoke_all (steps f) s)). \<not> IsValid r)"
  show "Validate f s =
          (\<lparr>IsValid = (steps f = []),
            Message = concat (map Message (fst (invoke_all (steps f) s)))\<rparr>,
           snd (invoke_all (steps f) s))"
  proof (cases "steps f = []")
    case True
    then show ?thesis by (simp add: Validate_def Success_def)
  next
    case False
    with h loop_or_all_fail [of "steps f" s 0 "[]"] show ?thesis
      by (simp add: Validate_def)
  qed
next
  show "Validate (Or (Or New (logged_rule 1 (Fail [''a'']))) (logged_rule 2 (Fail [''b'']))) []
       = (\<lparr>IsValid = False, Message = [''a'', ''b'']\<rparr>, [1, 2])"
    by (simp add: example_defs)
qed

theorem C3_or_collects_all_failures_witness:
  "map op (steps (Or (Or New (logged_rule 1 (Fail [''a''])))
                        (logged_rule 2 (Fail [''b''])))) = [opOr, opOr]
   \<and> map IsValid (fst (invoke_all (steps (Or (Or New (logged_rule 1 (Fail [''a''])))
                        (logged_rule 2 (Fail [''b''])))) [])) = [False, False]
   \<and> Validate (Or (Or New (logged_rule 1 (Fail [''a''])))
                            (logged_rule 2 (Fail [''b'']))) []
      = (\<lparr>IsValid = False, Message = [''a'', ''b'']\<rparr>, [1, 2])"
  using C3_or_collects_all_failures
    [of "Or (Or New (logged_rule 1 (Fail [''a'']))) (logged_rule 2 (Fail [''b'']))" "[]"]
  by (simp add: Or_def New_def logged_rule_def Fail_def)

section \<open>A valid result has no messages\<close>

lemma body_passing_no_messages:
  assumes "i = 0 \<longrightarrow> msgs = []" and "acc \<longrightarrow> msgs = []"
    and "Validate_body i step (acc, msgs, s) = (acc', msgs', s')"
  shows "acc' \<longrightarrow> msgs' = []"
  using assms
  by (cases "op step") (auto simp: Validate_body_def split: if_splits prod.splits)

lemma loop_passing_no_messages:
  assumes "i = 0 \<longrightarrow> msgs = []" and "acc \<longrightarrow> msgs = []"
    and "Validate_loop i xs (acc, msgs, s) = (acc', msgs', s')"
  shows "acc' \<longrightarrow> msgs' = []"
  using assms
proof (induction xs arbitrary: i acc msgs s)
  case Nil
  then show ?case by simp
next
  case (Cons x xs)
  obtain a m t where b: "Validate_body i x (acc, msgs, s) = (a, m, t)"
    by (cases "Validate_body i x (acc, msgs, s)")
  have inv: "a \<longrightarrow> m = []"
    using body_passing_no_messages [OF Cons.prems(1) Cons.prems(2) b] .
  show ?case
    using Cons.IH [of "Suc i" m a t] inv Cons.prems(3) b by simp
qed

text \<open>
  Claim C4. For every chain and every starting state, if the result of \<open>Validate\<close> has
  \<open>IsValid\<close> true then its \<open>Message\<close> is empty. The loop keeps this by construction as
  well: whenever it ends with the accumulator true, its message list is empty.
\<close>

theorem C4_valid_has_no_messages:
  "(IsValid (fst (Validate f s)) \<longrightarrow> Message (fst (Validate f s)) = [])
   \<and> (fst (Validate_loop 0 (steps f) (False, [], s))
        \<longrightarrow> fst (snd (Validate_loop 0 (steps f) (False, [], s))) = [])"
proof (intro conjI impI)
  assume "IsValid (fst (Validate f s))"
  then show "Message (fst (Validate f s)) = []"
    by (auto simp: Validate_def Success_def split: if_splits prod.splits)
next
  assume a: "fst (Validate_loop 0 (steps f) (False, [], s))"
  obtain acc msgs s' where l: "Validate_loop 0 (steps f) (False, [], s) = (acc, msgs, s')"
    by (cases "Validate_loop 0 (steps f) (False, [], s)")
  from loop_passing_no_messages [OF _ _ l] a l
  show "fst (snd (Validate_loop 0 (steps f) (False, [], s))) = []" by simp
qed

theorem C4_valid_has_no_messages_witness:
  "IsValid (fst (Validate (Or (Or New (const_rule (Fail [''a'']))) (const_rule Success)) ()))
   \<and> Message (fst (Validate (Or (Or New (const_rule (Fail [''a'']))) (const_rule Success)) ())) = []
   \<and> fst (Validate_loop 0 (steps (Or (Or New (const_rule (Fail [''a'']))) (const_rule Success)))
            (False, [], ()))
   \<and> fst (snd (Validate_loop 0 (steps (Or (Or New (const_rule (Fail [''a''])))
            (const_rule Success))) (False, [], ()))) = []"
  using C4_valid_has_no_messages
    [of "Or (Or New (const_rule (Fail [''a'']))) (const_rule Success)" "()"]
  by (simp add: example_defs)

section \<open>The first step\<close>

text \<open>
  Claim C5. At index 0 the rule of the step is invoked whatever the operator of the step
  and whatever the accumulator: the new accumulator is the \<open>IsValid\<close> of its result, its
  messages are appended when it failed, and the state is the one the rule left. An OR
  tag and an AND tag give the same iteration. So \<open>Validate\<close> on a non-empty chain invokes
  the first rule and runs the rest of the loop from what it gave, and a chain of a single
  OR step returns what its rule decides; with a logging rule that fails, the result is
  the failure and the log holds the rule.
\<close>

theorem C5_first_step_always_runs:
  "Validate_body 0 step (acc, msgs, s) =
     (case validator step s of (res, s') \<Rightarrow>
        (IsValid res, (if IsValid res then msgs else msgs @ Message res), s'))
   \<and> Validate_body 0 (step\<lparr>op := opOr\<rparr>) (acc, msgs, s)
       = Validate_body 0 (step\<lparr>op := opAnd\<rparr>) (acc, msgs, s)
   \<and> Validate \<lparr>steps = step # rest\<rparr> s =
       (case validator step s of (res, s') \<Rightarrow>
          (case Validate_loop 1 rest
                  (IsValid res, (if IsValid res then [] else Message res), s') of
             (accValid, messages, s'') \<Rightarrow>
                if accValid then (Success, s'')
                else (\<lparr>IsValid = False, Message = messages\<rparr>, s'')))
   \<and> Validate (Or New v) s =
       (case v s of (res, s') \<Rightarrow>
          (if IsValid res then Success else \<lparr>IsValid = False, Message = Message res\<rparr>, s'))
   \<and> Validate (Or New (logged_rule 7 (Fail [''bad'']))) []
       = (\<lparr>IsValid = False, Message = [''bad'']\<rparr>, [7])"
proof (intro conjI)
  show "Validate (Or New v) s =
       (case v s of (res, s') \<Rightarrow>
          (if IsValid res then Success else \<lparr>IsValid = False, Message = Message res\<rparr>, s'))"
    by (simp add: Validate_def Or_def New_def body_first split: prod.splits)
  show "Validate (Or New (logged_rule 7 (Fail [''bad'']))) []
       = (\<lparr>IsValid = False, Message = [''bad'']\<rparr>, [7])"
    by (simp add: Validate_def Or_def New_def body_first logged_rule_def Fail_def)
qed (simp_all add: Validate_def body_first split: prod.splits)

section \<open>The empty chain\<close>

text \<open>
  Claim C6. \<open>Validate\<close> on a chain with zero steps returns the passing result with no
  messages, and the state of the rules is the one it started with: no rule is invoked.
  The chain made by \<open>New\<close> is such a chain.
\<close>

theorem C6_empty_chain:
  "Validate \<lparr>steps = []\<rparr> s = (\<lparr>IsValid = True, Message = []\<rparr>, s)
   \<and> Validate New s = (\<lparr>IsValid = True, Message = []\<rparr>, s)"
  by (simp add: Validate_def New_def Success_def)

section \<open>Validating twice\<close>

lemma body_deterministic:
  assumes "\<forall>s s'. fst (validator x s) = fst (validator x s')"
  shows "fst (Validate_body i x (a, m, s)) = fst (Validate_body i x (a, m, t))
       \<and> fst (snd (Validate_body i x (a, m, s))) = fst (snd (Validate_body i x (a, m, t)))"
proof -
  obtain r1 s1 where v1: "validator x s = (r1, s1)" by (cases "validator x s")
  obtain r2 s2 where v2: "validator x t = (r2, s2)" by (cases "validator x t")
  from assms [rule_format, of s t] v1 v2 have "r1 = r2" by simp
  with v1 v2 show ?thesis
    by (cases "op x") (simp_all add: Validate_body_def)
qed

lemma loop_deterministic:
  assumes "\<forall>st \<in> set xs. \<forall>s s'. fst (validator st s) = fst (validator st s')"
  shows "fst (Validate_loop i xs (a, m, s)) = fst (Validate_loop i xs (a, m, t))
       \<and> fst (snd (Validate_loop i xs (a, m, s))) = fst (snd (Validate_loop i xs (a, m, t)))"
  using assms
proof (induction xs arbitrary: i a m s t)
  case Nil
  then show ?case by simp
next
  case (Cons x xs)
  obtain a1 m1 s1 where b1: "Validate_body i x (a, m, s) = (a1, m1, s1)"
    by (cases "Validate_body i x (a, m, s)")
  obtain a2 m2 s2 where b2: "Validate_body i x (a, m, t) = (a2, m2, s2)"
    by (cases "Validate_body i x (a, m, t)")
  from Cons.prems have dx: "\<forall>s s'. fst (validator x s) = fst (validator x s')" by simp
  from body_deterministic [OF dx, of i a m s t] b1 b2 have eq: "a1 = a2" "m1 = m2" by simp_all
  from Cons.prems have dxs: "\<forall>st \<in> set xs. \<forall>s s'. fst (validator st s) = fst (validator st s')"
    by simp
  show ?case
    using Cons.IH [OF dxs, of "Suc i" a1 m1 s1 s2] b1 b2 eq by simp
qed

lemma Validate_deterministic:
  assumes "\<forall>st \<in> set (steps f). \<forall>s s'. fst (validator st s) = fst (validator st s')"
  shows "fst (Validate f t) = fst (Validate f s)"
proof -
  obtain a1 m1 s1 where l1: "Validate_loop 0 (steps f) (False, [], s) = (a1, m1, s1)"
    by (cases "Validate_loop 0 (steps f) (False, [], s)")
  obtain a2 m2 s2 where l2: "Validate_loop 0 (steps f) (False, [], t) = (a2, m2, s2)"
    by (cases "Validate_loop 0 (steps f) (False, [], t)")
  from loop_deterministic [OF assms, of 0 False "[]" s t] l1 l2 have "a1 = a2" "m1 = m2"
    by simp_all
  with l1 l2 show ?thesis by (simp add: Validate_def)
qed

text \<open>
  Claim C7. A rule is deterministic when its result does not depend on the state it is
  invoked in. For a chain of such rules, the second call of \<open>Validate\<close>, made on the same
  chain in the state the first call left, returns the result of the first. The chain is
  an argument that \<open>Validate\<close> only reads, and the second call runs the whole loop and
  invokes the rules again: with logging rules, the chain AND(pass()), AND(fail("e")) gives
  the same failing result twice and the log of the second call holds both rules a second
  time.
\<close>

theorem C7_validate_repeatable:
  "((\<forall>st \<in> set (steps f). \<forall>s s'. fst (validator st s) = fst (validator st s'))
    \<longrightarrow> fst (Validate f (snd (Validate f s))) = fst (Validate f s))
   \<and> Validate (And (And New (logged_rule 1 Success)) (logged_rule 2 (Fail [''e'']))) []
       = (\<lparr>IsValid = False, Message = [''e'']\<rparr>, [1, 2])
   \<and> Validate (And (And New (logged_rule 1 Success)) (logged_rule 2 (Fail [''e'']))) [1, 2]
       = (\<lparr>IsValid = False, Message = [''e'']\<rparr>, [1, 2, 1, 2])"
proof (intro conjI impI)
  assume "\<forall>st \<in> set (steps f). \<forall>s s'. fst (validator st s) = fst (validator st s')"
  then show "fst (Validate f (snd (Validate f s))) = fst (Validate f s)"
    by (rule Validate_deterministic)
qed (simp_all add: example_defs)

theorem C7_validate_repeatable_witness:
  "map op (steps (And (And New (logged_rule 1 Success)) (logged_rule 2 (Fail [''e'']))))
     = [opAnd, opAnd]
   \<and> (\<forall>s s'. fst (logged_rule 1 Success s) = fst (logged_rule 1 Success s'))
   \<and> (\<forall>s s'. fst (logged_rule 2 (Fail [''e'']) s) = fst (logged_rule 2 (Fail [''e'']) s'))
   \<and> fst (Validate (And (And New (logged_rule 1 Success)) (logged_rule 2 (Fail [''e''])))
           (snd (Validate (And (And New (logged_rule 1 Success))
                               (logged_rule 2 (Fail [''e'']))) [])))
     = fst (Validate (And (And New (logged_rule 1 Success)) (logged_rule 2 (Fail [''e'']))) [])"
  using C7_validate_repeatable
    [of "And (And New (logged_rule 1 Success)) (logged_rule 2 (Fail [''e'']))" "[]"]
  by (simp add: And_def New_def logged_rule_def)

section \<open>The accumulator as a two-state machine\<close>

text \<open>
  Claim C8. The state is PASSING when the accumulator is true and FAILING when it is
  false. Take a step after the first, that is, one appended to a non-empty chain.
  When the chain before it ends FAILING, an AND step with any rule \<open>v\<close> leaves the
  accumulator, the messages and the state of the rules as they were, so \<open>v\<close> is not
  evaluated and the machine stays FAILING, while an OR step ends PASSING exactly when its
  rule passes. When the chain before it ends PASSING, an OR step with any rule leaves
  everything as it was, so its rule is not evaluated and the machine stays PASSING, while
  an AND step ends PASSING exactly when its rule passes. So an AND step never moves
  FAILING to PASSING and an OR step never moves PASSING to FAILING.
\<close>

theorem C8_two_state_machine:
  "(pre \<noteq> [] \<and> Validate_loop 0 pre (False, [], s0) = (False, msgs, s) \<longrightarrow>
      Validate_loop 0 (pre @ [\<lparr>validator = v, op = opAnd\<rparr>]) (False, [], s0) = (False, msgs, s)
    \<and> fst (Validate_loop 0 (pre @ [\<lparr>validator = v, op = opOr\<rparr>]) (False, [], s0))
        = IsValid (fst (v s)))
   \<and> (pre' \<noteq> [] \<and> Validate_loop 0 pre' (False, [], s0') = (True, msgs', s') \<longrightarrow>
      Validate_loop 0 (pre' @ [\<lparr>validator = v', op = opOr\<rparr>]) (False, [], s0') = (True, msgs', s')
    \<and> fst (Validate_loop 0 (pre' @ [\<lparr>validator = v', op = opAnd\<rparr>]) (False, [], s0'))
        = IsValid (fst (v' s')))"
proof (intro conjI impI)
  assume h: "pre \<noteq> [] \<and> Validate_loop 0 pre (False, [], s0) = (False, msgs, s)"
  then have p: "0 < length pre" by simp
  from h p show
    "Validate_loop 0 (pre @ [\<lparr>validator = v, op = opAnd\<rparr>]) (False, [], s0) = (False, msgs, s)"
    by (simp add: Validate_loop_snoc body_and_failing)
  from h p show "fst (Validate_loop 0 (pre @ [\<lparr>validator = v, op = opOr\<rparr>]) (False, [], s0))
        = IsValid (fst (v s))"
    by (simp add: Validate_loop_snoc body_or_failing split: prod.splits)
next
  assume h: "pre' \<noteq> [] \<and> Validate_loop 0 pre' (False, [], s0') = (True, msgs', s')"
  then have p: "0 < length pre'" by simp
  from h p show
    "Validate_loop 0 (pre' @ [\<lparr>validator = v', op = opOr\<rparr>]) (False, [], s0') = (True, msgs', s')"
    by (simp add: Validate_loop_snoc body_or_passing)
  from h p show "fst (Validate_loop 0 (pre' @ [\<lparr>validator = v', op = opAnd\<rparr>]) (False, [], s0'))
        = IsValid (fst (v' s'))"
    by (simp add: Validate_loop_snoc body_and_passing split: prod.splits)
qed

theorem C8_two_state_machine_witness:
  "[\<lparr>validator = logged_rule 1 (Fail [''x'']), op = opAnd\<rparr>] \<noteq> []
   \<and> Validate_loop 0 [\<lparr>validator = logged_rule 1 (Fail [''x'']), op = opAnd\<rparr>] (False, [], [])
       = (False, [''x''], [1])
   \<and> Validate_loop 0 ([\<lparr>validator = logged_rule 1 (Fail [''x'']), op = opAnd\<rparr>]
                        @ [\<lparr>validator = logged_rule 2 Success, op = opAnd\<rparr>]) (False, [], [])
       = (False, [''x''], [1])
   \<and> fst (Validate_loop 0 ([\<lparr>validator = logged_rule 1 (Fail [''x'']), op = opAnd\<rparr>]
                        @ [\<lparr>validator = logged_rule 2 Success, op = opOr\<rparr>]) (False, [], []))
   \<and> [\<lparr>validator = logged_rule 1 Success, op = opAnd\<rparr>] \<noteq> []
   \<and> Validate_loop 0 [\<lparr>validator = logged_rule 1 Success, op = opAnd\<rparr>] (False, [], [])
       = (True, [], [1])
   \<and> Validate_loop 0 ([\<lparr>validator = logged_rule 1 Success, op = opAnd\<rparr>]
                        @ [\<lparr>validator = logged_rule 2 (Fail [''y'']), op = opOr\<rparr>]) (False, [], [])
       = (True, [], [1])
   \<and> \<not> fst (Validate_loop 0 ([\<lparr>validator = logged_rule 1 Success, op = opAnd\<rparr>]
                        @ [\<lparr>validator = logged_rule 2 (Fail [''y'']), op = opAnd\<rparr>])
                (False, [], []))"
  using C8_two_state_machine
    [of "[\<lparr>validator = logged_rule 1 (Fail [''x'']), op = opAnd\<rparr>]" "[]" "[''x'']" "[1]"
        "logged_rule 2 Success"
        "[\<lparr>validator = logged_rule 1 Success, op = opAnd\<rparr>]" "[]" "[]" "[1]"
        "logged_rule 2 (Fail [''y''])"]
  by (simp add: logged_rule_def Fail_def Success_def Validate_body_def)

section \<open>A zero divisor\<close>

lemma Itoa_0: "Itoa 0 = ''0''"
  by code_simp

text \<open>
  Claim C9. For every integer \<open>v\<close>, the rule \<open>IntMultipleOf(v, 0)\<close> returns the failure
  with the message "must be a multiple of 0"; and for all \<open>v\<close> and \<open>m\<close> the rule returns a
  result, it never panics: the remainder is not taken with a zero divisor. For every float
  \<open>x\<close>, \<open>FloatMultipleOf(x, 0)\<close> returns the failure with the message "must be a multiple
  of 0 is undefined", for the positive zero and for the negative zero, whatever the
  floating-point arithmetic of the rest of the function. The two results differ.
\<close>

theorem C9_multiple_of_zero:
  "IntMultipleOf v 0 = Inr (Fail [''must be a multiple of 0''])
   \<and> (\<exists>r. IntMultipleOf v m = Inr r)
   \<and> FloatMultipleOf F x 0 = Fail [''must be a multiple of 0 is undefined'']
   \<and> FloatMultipleOf F x (push_bit 63 1) = Fail [''must be a multiple of 0 is undefined'']
   \<and> IntMultipleOf v 0 \<noteq> Inr (FloatMultipleOf F x 0)"
  by (simp add: IntMultipleOf_def FloatMultipleOf_def float64_is_zero_def go_rem_def Fail_def
      Itoa_0)

section \<open>Where the messages come from\<close>

lemma failing_messages_append:
  "failing_messages (xs @ ys) = failing_messages xs @ failing_messages ys"
  by (simp add: failing_messages_def)

lemma body_recorded:
  assumes "Validate_body i \<lparr>validator = recording (validator st), op = op st\<rparr> (a, m, (s, log))
             = (a', m', (s', log'))"
  shows "Validate_body i st (a, m, s) = (a', m', s')
       \<and> (\<exists>new. log' = log @ new \<and> set m' \<subseteq> set m \<union> set (failing_messages new))"
proof -
  obtain res t where v: "validator st s = (res, t)" by (cases "validator st s")
  have r: "recording (validator st) (s, log) = (res, (t, log @ [res]))"
    using v by (simp add: recording_def)
  show ?thesis
  proof (cases "i = 0 \<or> (op st = opAnd \<and> a) \<or> (op st = opOr \<and> \<not> a)")
    case True
    with assms v r show ?thesis
      by (cases "op st") (auto simp: Validate_body_def failing_messages_def split: if_splits)
  next
    case False
    with assms have "a' = a \<and> m' = m \<and> s' = s \<and> log' = log"
      by (cases "op st") (auto simp: Validate_body_def split: if_splits)
    moreover from False have "Validate_body i st (a, m, s) = (a, m, s)"
      by (cases "op st") (auto simp: Validate_body_def)
    ultimately show ?thesis by (auto simp: failing_messages_def)
  qed
qed

lemma loop_recorded:
  assumes "Validate_loop i (recorded xs) (a, m, (s, log)) = (a', m', (s', log'))"
  shows "Validate_loop i xs (a, m, s) = (a', m', s')
       \<and> (\<exists>new. log' = log @ new \<and> set m' \<subseteq> set m \<union> set (failing_messages new))"
  using assms
proof (induction xs arbitrary: i a m s log)
  case Nil
  then show ?case by (simp add: recorded_def failing_messages_def)
next
  case (Cons x xs)
  obtain a1 m1 s1 log1 where
    b: "Validate_body i \<lparr>validator = recording (validator x), op = op x\<rparr> (a, m, (s, log))
          = (a1, m1, (s1, log1))"
    by (cases "Validate_body i \<lparr>validator = recording (validator x), op = op x\<rparr> (a, m, (s, log))")
      auto
  from body_recorded [OF b] obtain new1 where
    b1: "Validate_body i x (a, m, s) = (a1, m1, s1)" and
    n1: "log1 = log @ new1" and
    m1: "set m1 \<subseteq> set m \<union> set (failing_messages new1)"
    by blast
  from Cons.prems b have
    "Validate_loop (Suc i) (recorded xs) (a1, m1, (s1, log1)) = (a', m', (s', log'))"
    by (simp add: recorded_def)
  from Cons.IH [OF this] obtain new2 where
    l2: "Validate_loop (Suc i) xs (a1, m1, s1) = (a', m', s')" and
    n2: "log' = log1 @ new2" and
    m2: "set m' \<subseteq> set m1 \<union> set (failing_messages new2)"
    by blast
  have "log' = log @ (new1 @ new2)" using n1 n2 by simp
  moreover have "set m' \<subseteq> set m \<union> set (failing_messages (new1 @ new2))"
    using m1 m2 by (auto simp: failing_messages_append)
  ultimately show ?case using b1 l2 by auto
qed

text \<open>
  Claim C10. Wrap every rule of a chain so that it records the result of each of its
  invocations. Every message of the result of \<open>Validate\<close> is a message of a recorded
  result with \<open>IsValid\<close> false, and recording changes nothing of the result. So the
  messages attached to a passing rule result are never in the output: a lone passing rule
  with the message "note" gives no messages, and followed by a failing rule it gives that
  rule's message only. A failing rule with no messages contributes nothing, and the
  overall failing result then has an empty message list.
\<close>

theorem C10_messages_from_failures:
  "set (Message (fst (Validate \<lparr>steps = recorded xs\<rparr> (s, []))))
     \<subseteq> set (failing_messages (snd (snd (Validate \<lparr>steps = recorded xs\<rparr> (s, [])))))
   \<and> fst (Validate \<lparr>steps = recorded xs\<rparr> (s, [])) = fst (Validate \<lparr>steps = xs\<rparr> s)
   \<and> Validate (And New (const_rule \<lparr>IsValid = True, Message = [''note'']\<rparr>)) s
       = (\<lparr>IsValid = True, Message = []\<rparr>, s)
   \<and> Validate (And (And New (const_rule \<lparr>IsValid = True, Message = [''note'']\<rparr>))
                    (const_rule (Fail [''x'']))) s
       = (\<lparr>IsValid = False, Message = [''x'']\<rparr>, s)
   \<and> Validate (And New (const_rule (Fail []))) s = (\<lparr>IsValid = False, Message = []\<rparr>, s)"
proof -
  obtain a m s' log' where
    l: "Validate_loop 0 (recorded xs) (False, [], (s, [])) = (a, m, (s', log'))"
    by (cases "Validate_loop 0 (recorded xs) (False, [], (s, []))") auto
  from loop_recorded [OF l] have
    l': "Validate_loop 0 xs (False, [], s) = (a, m, s')" and
    sub: "set m \<subseteq> set (failing_messages log')"
    by auto
  have e: "(recorded xs = []) = (xs = [])" by (simp add: recorded_def)
  have 1: "set (Message (fst (Validate \<lparr>steps = recorded xs\<rparr> (s, []))))
     \<subseteq> set (failing_messages (snd (snd (Validate \<lparr>steps = recorded xs\<rparr> (s, [])))))"
    using l sub e by (simp add: Validate_def Success_def)
  have 2: "fst (Validate \<lparr>steps = recorded xs\<rparr> (s, [])) = fst (Validate \<lparr>steps = xs\<rparr> s)"
    using l l' e by (simp add: Validate_def)
  have 3: "Validate (And New (const_rule \<lparr>IsValid = True, Message = [''note'']\<rparr>)) s
       = (\<lparr>IsValid = True, Message = []\<rparr>, s)"
    by (simp add: example_defs)
  have 4: "Validate (And (And New (const_rule \<lparr>IsValid = True, Message = [''note'']\<rparr>))
                    (const_rule (Fail [''x'']))) s
       = (\<lparr>IsValid = False, Message = [''x'']\<rparr>, s)"
    by (simp add: example_defs)
  have 5: "Validate (And New (const_rule (Fail []))) s = (\<lparr>IsValid = False, Message = []\<rparr>, s)"
    by (simp add: example_defs)
  from 1 2 3 4 5 show ?thesis by blast
qed

end
